theory Spec2Isabelle
  imports Complex_Main "HOL-Library.Sublist" "HOL-Library.Word"
begin

section \<open>Values, errors and the HTTP layer\<close>

text \<open>
  The value that \<^verbatim>\<open>Response.json()\<close> hands to the notebook: \<^verbatim>\<open>None\<close>, a bool, an int,
  a (finite) float, a str, a list or a dict. A dict is given by its items in insertion
  order; its keys are strings, as in every decoded JSON object.
\<close>

datatype pyval =
    JNull
  | JBool bool
  | JInt int
  | JFloat real
  | JStr string
  | JArr "pyval list"
  | JObj "(string \<times> pyval) list"

text \<open>Every exception of the notebook's code paths is a value.\<close>

datatype error =
    HTTPError nat
  | JSONDecodeError
  | KeyError pyval
  | IndexError
  | TypeError
  | AttributeError
  | ConnectionError
  | FileNotFoundError
  | ValueError

text \<open>\<^verbatim>\<open>v[k]\<close> with a string key \<open>k\<close>: only a dict can be subscripted by a string.\<close>

fun getitem_key :: "pyval \<Rightarrow> string \<Rightarrow> error + pyval" where
  "getitem_key (JObj kvs) k =
     (case map_of kvs k of None \<Rightarrow> Inl (KeyError (JStr k)) | Some v \<Rightarrow> Inr v)"
| "getitem_key _ k = Inl TypeError"

text \<open>
  \<^verbatim>\<open>v[0]\<close>: the first element of a list, the first character of a str (as a str of its
  own), a \<^verbatim>\<open>KeyError\<close> on a dict whose keys are all strings, a \<^verbatim>\<open>TypeError\<close> otherwise.
\<close>

fun getitem_0 :: "pyval \<Rightarrow> error + pyval" where
  "getitem_0 (JArr []) = Inl IndexError"
| "getitem_0 (JArr (x # xs)) = Inr x"
| "getitem_0 (JStr []) = Inl IndexError"
| "getitem_0 (JStr (c # cs)) = Inr (JStr [c])"
| "getitem_0 (JObj kvs) = Inl (KeyError (JInt 0))"
| "getitem_0 _ = Inl TypeError"

text \<open>Truth value of \<^verbatim>\<open>if v:\<close>.\<close>

fun truthy :: "pyval \<Rightarrow> bool" where
  "truthy JNull = False"
| "truthy (JBool b) = b"
| "truthy (JInt n) = (n \<noteq> 0)"
| "truthy (JFloat x) = (x \<noteq> 0)"
| "truthy (JStr s) = (s \<noteq> [])"
| "truthy (JArr xs) = (xs \<noteq> [])"
| "truthy (JObj kvs) = (kvs \<noteq> [])"

text \<open>
  The elements that \<^verbatim>\<open>for x in v\<close> visits: the elements of a list, the characters of a
  str, the keys of a dict; anything else is not iterable.
\<close>

fun iter :: "pyval \<Rightarrow> error + pyval list" where
  "iter (JArr xs) = Inr xs"
| "iter (JStr s) = Inr (map (\<lambda>c. JStr [c]) s)"
| "iter (JObj kvs) = Inr (map (\<lambda>kv. JStr (fst kv)) kvs)"
| "iter _ = Inl TypeError"

text \<open>\<^verbatim>\<open>v.startswith(p)\<close>: only a str has the method.\<close>

fun startswith :: "pyval \<Rightarrow> string \<Rightarrow> error + bool" where
  "startswith (JStr s) p = Inr (prefix p s)"
| "startswith _ p = Inl AttributeError"

text \<open>
  An HTTP response: its status code and its body as decoded by \<^verbatim>\<open>json()\<close>
  (\<open>None\<close> when the body is not JSON).
\<close>

record response =
  status_code :: nat
  body :: "pyval option"

definition raise_for_status :: "response \<Rightarrow> error + unit" where
  "raise_for_status r =
     (if 400 \<le> status_code r \<and> status_code r < 600 then Inl (HTTPError (status_code r))
      else Inr ())"

definition json :: "response \<Rightarrow> error + pyval" where
  "json r = (case body r of None \<Rightarrow> Inl JSONDecodeError | Some j \<Rightarrow> Inr j)"

text \<open>The form fields of a granule-page request.\<close>

record cmr_param =
  collection_concept_id :: pyval
  page_size :: nat
  page_num :: nat

datatype request = Get string | Post string cmr_param

text \<open>
  The remote side: what \<^verbatim>\<open>requests.get\<close> and \<^verbatim>\<open>requests.post\<close> answer to a request.
  A request that gets no response at all raises in the HTTP client (\<open>Inl\<close>).
\<close>

record world =
  http_get :: "string \<Rightarrow> error + response"
  http_post :: "string \<Rightarrow> cmr_param \<Rightarrow> error + response"

section \<open>Catalog search: \<^verbatim>\<open>search_cmr\<close>\<close>

definition cmrurl :: string where
  "cmrurl = ''https://cmr.earthdata.nasa.gov/search/''"

definition doisearch :: "string \<Rightarrow> string" where
  "doisearch doi = cmrurl @ ''collections.json?doi='' @ doi"

definition granulesearch :: string where
  "granulesearch = cmrurl @ ''granules.json''"

definition PAGE_SIZE :: nat where
  "PAGE_SIZE = 2000"

text \<open>
  \<^verbatim>\<open>requests.get(doisearch).json()['feed']['entry'][0]['id']\<close>, after the request
  has been answered.
\<close>

definition concept_id_of :: "response \<Rightarrow> error + pyval" where
  "concept_id_of r =
     (case json r of Inl e \<Rightarrow> Inl e | Inr j \<Rightarrow>
      (case getitem_key j ''feed'' of Inl e \<Rightarrow> Inl e | Inr feed \<Rightarrow>
       (case getitem_key feed ''entry'' of Inl e \<Rightarrow> Inl e | Inr entry \<Rightarrow>
        (case getitem_0 entry of Inl e \<Rightarrow> Inl e | Inr e0 \<Rightarrow>
          getitem_key e0 ''id''))))"

text \<open>The inner loop \<^verbatim>\<open>for links in g['links']\<close>.\<close>

fun collect_links :: "pyval list \<Rightarrow> pyval list \<Rightarrow> error + pyval list" where
  "collect_links [] s3_arr = Inr s3_arr"
| "collect_links (links # rest) s3_arr =
     (case getitem_key links ''href'' of Inl e \<Rightarrow> Inl e | Inr href \<Rightarrow>
      (case startswith href ''s3://'' of Inl e \<Rightarrow> Inl e | Inr b \<Rightarrow>
        collect_links rest (if b then s3_arr @ [href] else s3_arr)))"

text \<open>The loop \<^verbatim>\<open>for g in granules\<close>.\<close>

fun collect_granules :: "pyval list \<Rightarrow> pyval list \<Rightarrow> error + pyval list" where
  "collect_granules [] s3_arr = Inr s3_arr"
| "collect_granules (g # gs) s3_arr =
     (case getitem_key g ''links'' of Inl e \<Rightarrow> Inl e | Inr ls \<Rightarrow>
      (case iter ls of Inl e \<Rightarrow> Inl e | Inr links \<Rightarrow>
       (case collect_links links s3_arr of Inl e \<Rightarrow> Inl e | Inr s3_arr' \<Rightarrow>
         collect_granules gs s3_arr')))"

text \<open>
  One pass through the body of \<^verbatim>\<open>while True\<close>, from the answer to the page request on:
  it raises, leaves the loop (\<^verbatim>\<open>break\<close>), or goes on with the extended \<^verbatim>\<open>s3_arr\<close>.
\<close>

datatype step = Raise error | Break | Continue "pyval list"

definition page_step :: "error + response \<Rightarrow> pyval list \<Rightarrow> step" where
  "page_step answer s3_arr =
     (case answer of Inl e \<Rightarrow> Raise e | Inr r \<Rightarrow>
      (case raise_for_status r of Inl e \<Rightarrow> Raise e | Inr _ \<Rightarrow>
       (case json r of Inl e \<Rightarrow> Raise e | Inr j \<Rightarrow>
        (case getitem_key j ''feed'' of Inl e \<Rightarrow> Raise e | Inr feed \<Rightarrow>
         (case getitem_key feed ''entry'' of Inl e \<Rightarrow> Raise e | Inr granules \<Rightarrow>
           if truthy granules then
             (case iter granules of Inl e \<Rightarrow> Raise e | Inr gs \<Rightarrow>
              (case collect_granules gs s3_arr of Inl e \<Rightarrow> Raise e
               | Inr s3_arr' \<Rightarrow> Continue s3_arr'))
           else Break)))))"

text \<open>The dict \<^verbatim>\<open>cmr_param\<close> of the request for page \<open>pnum\<close>.\<close>

definition page_request :: "pyval \<Rightarrow> nat \<Rightarrow> cmr_param" where
  "page_request concept_id pnum =
     \<lparr>collection_concept_id = concept_id, page_size = PAGE_SIZE, page_num = pnum\<rparr>"

text \<open>
  The loop \<^verbatim>\<open>while True\<close>. It need not end, so the result is an option: \<open>None\<close> is a
  run that never returns. A run that ends gives what \<^verbatim>\<open>search_cmr\<close> returns or raises,
  and the requests issued so far, in order.
\<close>

partial_function (option) search_loop ::
  "world \<Rightarrow> pyval \<Rightarrow> nat \<Rightarrow> pyval list \<Rightarrow> request list
     \<Rightarrow> ((error + pyval list) \<times> request list) option" where
  "search_loop w concept_id pnum s3_arr sent =
     (case page_step (http_post w granulesearch (page_request concept_id pnum)) s3_arr of
        Raise e \<Rightarrow>
          Some (Inl e, sent @ [Post granulesearch (page_request concept_id pnum)])
      | Break \<Rightarrow>
          Some (Inr s3_arr, sent @ [Post granulesearch (page_request concept_id pnum)])
      | Continue s3_arr' \<Rightarrow>
          search_loop w concept_id (pnum + 1) s3_arr'
            (sent @ [Post granulesearch (page_request concept_id pnum)]))"

definition search_cmr ::
  "world \<Rightarrow> string \<Rightarrow> ((error + pyval list) \<times> request list) option" where
  "search_cmr w doi =
     (case http_get w (doisearch doi) of
        Inl e \<Rightarrow> Some (Inl e, [Get (doisearch doi)])
      | Inr r \<Rightarrow>
         (case concept_id_of r of
            Inl e \<Rightarrow> Some (Inl e, [Get (doisearch doi)])
          | Inr concept_id \<Rightarrow> search_loop w concept_id 1 [] [Get (doisearch doi)]))"

text \<open>
  A well-formed listing, as the catalog serves it: a link record \<open>l\<close> carries the href
  \<open>h\<close>; a granule record \<open>g\<close> carries the links with hrefs \<open>hs\<close>, in order; the answer
  to the request for page \<open>k\<close> of collection \<open>cid\<close> has no error status and lists the
  granules \<open>gs\<close>, each given by the hrefs of its links.
\<close>

definition is_link :: "pyval \<Rightarrow> string \<Rightarrow> bool" where
  "is_link l h = (getitem_key l ''href'' = Inr (JStr h))"

definition is_granule :: "pyval \<Rightarrow> string list \<Rightarrow> bool" where
  "is_granule g hs =
     (case getitem_key g ''links'' of Inr (JArr ls) \<Rightarrow> list_all2 is_link ls hs | _ \<Rightarrow> False)"

definition is_listing :: "response \<Rightarrow> string list list \<Rightarrow> bool" where
  "is_listing r gs =
     (raise_for_status r = Inr () \<and>
      (case body r of None \<Rightarrow> False | Some j \<Rightarrow>
       (case getitem_key j ''feed'' of Inl e \<Rightarrow> False | Inr feed \<Rightarrow>
        (case getitem_key feed ''entry'' of Inr (JArr es) \<Rightarrow> list_all2 is_granule es gs
         | _ \<Rightarrow> False))))"

definition is_page :: "world \<Rightarrow> pyval \<Rightarrow> nat \<Rightarrow> string list list \<Rightarrow> bool" where
  "is_page w cid k gs =
     (case http_post w granulesearch (page_request cid k) of
        Inl e \<Rightarrow> False | Inr r \<Rightarrow> is_listing r gs)"

text \<open>The object-store links of a page: the hrefs with the scheme \<^verbatim>\<open>s3://\<close>, in order.\<close>

definition s3_links :: "string list list \<Rightarrow> string list" where
  "s3_links gs = concat (map (filter (prefix ''s3://'')) gs)"

text \<open>The requests for the pages \<open>p\<close>, \<open>p + 1\<close>, ..., \<open>n - 1\<close> of collection \<open>cid\<close>.\<close>

definition page_posts :: "pyval \<Rightarrow> nat \<Rightarrow> nat \<Rightarrow> request list" where
  "page_posts cid p n = map (\<lambda>k. Post granulesearch (page_request cid k)) [p..<n]"

section \<open>Credential retrieval: \<^verbatim>\<open>get_s3credentials\<close>\<close>

definition s3credentials_url :: "string \<Rightarrow> string" where
  "s3credentials_url daac = ''https://data.'' @ daac @ ''.earthdata.nasa.gov/s3credentials''"

definition get_s3credentials :: "world \<Rightarrow> string \<Rightarrow> error + pyval" where
  "get_s3credentials w daac =
     (case http_get w (s3credentials_url daac) of Inl e \<Rightarrow> Inl e | Inr r \<Rightarrow>
      (case raise_for_status r of Inl e \<Rightarrow> Inl e | Inr _ \<Rightarrow> json r))"

section \<open>Reading the raster\<close>

text \<open>
  The two places a file can come from: the objects that \<^verbatim>\<open>fs_s3\<close>, the file system
  opened with the temporary credentials, reads by locator, and the files of the working
  directory, read by name.
\<close>

type_synonym byte = "8 word"

record session =
  s3_objects :: "string \<rightharpoonup> byte list"
  local_files :: "string \<rightharpoonup> byte list"

text \<open>\<^verbatim>\<open>fs_s3.open(path)\<close>: the object behind the locator.\<close>

definition fs_s3_open :: "session \<Rightarrow> string \<Rightarrow> error + byte list" where
  "fs_s3_open s path =
     (case s3_objects s path of None \<Rightarrow> Inl FileNotFoundError | Some b \<Rightarrow> Inr b)"

text \<open>\<^verbatim>\<open>p.split('/')\<close> and \<^verbatim>\<open>p.split('/')[-1]\<close>.\<close>

fun split_sep :: "char \<Rightarrow> string \<Rightarrow> string list" where
  "split_sep c [] = [[]]"
| "split_sep c (x # xs) =
     (if x = c then [] # split_sep c xs
      else (case split_sep c xs of [] \<Rightarrow> [[x]] | p # ps \<Rightarrow> (x # p) # ps))"

definition last_component :: "string \<Rightarrow> string" where
  "last_component p = last (split_sep CHR ''/'' p)"

text \<open>
  \<^verbatim>\<open>np.memmap(name, dtype=np.complex64)\<close> maps the file of that name in the working
  directory as a flat array of complex samples of 8 bytes each (4 bytes real part,
  4 bytes imaginary part). A sample is kept as its 8 bytes. The call raises when there
  is no such file, when the file is empty and when its size is not a multiple of 8.
\<close>

type_synonym sample = "byte list"

definition samples_of :: "byte list \<Rightarrow> sample list" where
  "samples_of bs = map (\<lambda>i. take 8 (drop (8 * i) bs)) [0..<length bs div 8]"

definition np_memmap :: "session \<Rightarrow> string \<Rightarrow> error + sample list" where
  "np_memmap s name =
     (case local_files s name of None \<Rightarrow> Inl FileNotFoundError | Some bs \<Rightarrow>
        if length bs mod 8 \<noteq> 0 then Inl ValueError
        else if bs = [] then Inl ValueError
        else Inr (samples_of bs))"

text \<open>
  \<^verbatim>\<open>ds.reshape(rows, cols)\<close> on a flat array: the same samples as \<open>rows\<close> rows of \<open>cols\<close>
  samples, row by row; it raises unless the array has exactly \<open>rows * cols\<close> samples.
\<close>

definition reshape :: "sample list \<Rightarrow> nat \<Rightarrow> nat \<Rightarrow> error + sample list list" where
  "reshape ds rows cols =
     (if length ds = rows * cols
      then Inr (map (\<lambda>i. take cols (drop (i * cols) ds)) [0..<rows])
      else Inl ValueError)"

text \<open>
  The cell that reads a segment: \<^verbatim>\<open>ds = np.memmap(seg.split('/')[-1], dtype=np.complex64)\<close>,
  then \<^verbatim>\<open>ds.reshape(rows, cols)\<close>. The two lines \<^verbatim>\<open>fs_s3.download(...)\<close> before it are
  comments, so nothing is fetched here. The grids \<^verbatim>\<open>np.abs\<close> and \<^verbatim>\<open>np.angle\<close> that the
  cell derives next are single-precision float computations on the samples and are not
  part of this development.
\<close>

definition read_slc :: "session \<Rightarrow> string \<Rightarrow> nat \<Rightarrow> nat \<Rightarrow> error + sample list list" where
  "read_slc s seg rows cols =
     (case np_memmap s (last_component seg) of Inl e \<Rightarrow> Inl e
      | Inr ds \<Rightarrow> reshape ds rows cols)"

definition cols_s2 :: nat where
  "cols_s2 = 9900"

definition rows_s2 :: nat where
  "rows_s2 = 55408"

definition slc_seg2 :: "session \<Rightarrow> string \<Rightarrow> error + sample list list" where
  "slc_seg2 s seg2 = read_slc s seg2 rows_s2 cols_s2"

section \<open>Mocked endpoints\<close>

text \<open>A response with status 200 and the given body.\<close>

definition ok_response :: "pyval \<Rightarrow> response" where
  "ok_response j = \<lparr>status_code = 200, body = Some j\<rparr>"

text \<open>The body of a collection or granule listing: \<^verbatim>\<open>{"feed": {"entry": [...]}}\<close>.\<close>

definition feed_of :: "pyval list \<Rightarrow> pyval" where
  "feed_of es = JObj [(''feed'', JObj [(''entry'', JArr es)])]"

definition link_of :: "string \<Rightarrow> pyval" where
  "link_of h = JObj [(''href'', JStr h)]"

definition granule_of :: "string list \<Rightarrow> pyval" where
  "granule_of hs = JObj [(''links'', JArr (map link_of hs))]"

definition collection_body :: pyval where
  "collection_body = feed_of [JObj [(''id'', JStr ''C2000-ORNL'')]]"

text \<open>
  A catalog whose lookup answers \<open>lookup\<close> and whose granule listing has the pages
  \<open>pages\<close>, whatever the collection asked for.
\<close>

definition catalog :: "response \<Rightarrow> (nat \<Rightarrow> string list list) \<Rightarrow> world" where
  "catalog lookup pages =
     \<lparr>http_get = (\<lambda>url. Inr lookup),
      http_post = (\<lambda>url p. Inr (ok_response (feed_of (map granule_of (pages (page_num p))))))\<rparr>"

text \<open>Two pages with granules, then empty pages.\<close>

definition two_pages :: "nat \<Rightarrow> string list list" where
  "two_pages k =
     (if k = 1 then [[''s3://bucket/a.slc'', ''https://host/a.slc'', ''ftp://host/a.slc'']]
      else if k = 2 then [[''s3://bucket/b.ann'']]
      else [])"

text \<open>One page with one granule of three links, then empty pages.\<close>

definition three_links :: "nat \<Rightarrow> string list list" where
  "three_links k =
     (if k = 1 then [[''s3://bucket/a.slc'', ''https://host/a.slc'', ''ftp://host/a.slc'']]
      else [])"

text \<open>A listing that never runs out.\<close>

definition endless_pages :: "nat \<Rightarrow> string list list" where
  "endless_pages k = [[''s3://bucket/a.slc'']]"

text \<open>The credential endpoint of the data provider.\<close>

definition credentials_body :: pyval where
  "credentials_body =
     JObj [(''accessKeyId'', JStr ''A''), (''secretAccessKey'', JStr ''B''),
           (''sessionToken'', JStr ''C''), (''expiration'', JStr ''2024-01-01T00:00:00Z'')]"

definition credentials_world :: world where
  "credentials_world =
     \<lparr>http_get = (\<lambda>url. Inr (ok_response credentials_body)),
      http_post = (\<lambda>url p. Inl ConnectionError)\<rparr>"

text \<open>Two raster files of one sample each.\<close>

definition raster_a :: "byte list" where
  "raster_a = [1, 2, 3, 4, 5, 6, 7, 8]"

definition raster_b :: "byte list" where
  "raster_b = [8, 7, 6, 5, 4, 3, 2, 1]"

text \<open>
  Three sessions around the locator \<^verbatim>\<open>s3://bucket/x.slc\<close>: the object is in the store
  and there is no local file; the object is in the store and the working directory has
  a file \<^verbatim>\<open>x.slc\<close> with other content; the store is empty and the same local file
  is there.
\<close>

definition remote_only :: session where
  "remote_only =
     \<lparr>s3_objects = [''s3://bucket/x.slc'' \<mapsto> raster_a], local_files = Map.empty\<rparr>"

definition remote_and_local :: session where
  "remote_and_local =
     \<lparr>s3_objects = [''s3://bucket/x.slc'' \<mapsto> raster_a],
      local_files = [''x.slc'' \<mapsto> raster_b]\<rparr>"

definition local_only :: session where
  "local_only = \<lparr>s3_objects = Map.empty, local_files = [''x.slc'' \<mapsto> raster_b]\<rparr>"

text \<open>
  A collection lookup answered with status 500 and a well-formed body, in front of a
  listing with no granules.
\<close>

definition lookup_500 :: world where
  "lookup_500 = catalog \<lparr>status_code = 500, body = Some collection_body\<rparr> (\<lambda>k. [])"

section \<open>The loops of \<^verbatim>\<open>search_cmr\<close>\<close>

lemma collect_links_ok:
  "list_all2 is_link ls hs \<Longrightarrow>
     collect_links ls acc = Inr (acc @ map JStr (filter (prefix ''s3://'') hs))"
  by (induction ls hs arbitrary: acc rule: list_all2_induct) (simp_all add: is_link_def)

lemma is_granule_links:
  assumes "is_granule g hs"
  obtains ls where "getitem_key g ''links'' = Inr (JArr ls)" and "list_all2 is_link ls hs"
  using assms by (auto simp: is_granule_def split: sum.splits pyval.splits)

lemma collect_granules_step:
  assumes "is_granule g hs"
  shows "collect_granules (g # gs) acc =
           collect_granules gs (acc @ map JStr (filter (prefix ''s3://'') hs))"
proof -
  from assms obtain ls where ls: "getitem_key g ''links'' = Inr (JArr ls)"
    and all: "list_all2 is_link ls hs"
    by (rule is_granule_links)
  show ?thesis
    by (simp add: ls collect_links_ok [OF all])
qed

lemma collect_granules_ok:
  "list_all2 is_granule es gs \<Longrightarrow>
     collect_granules es acc = Inr (acc @ map JStr (s3_links gs))"
proof (induction es gs arbitrary: acc rule: list_all2_induct)
  case Nil
  then show ?case by (simp add: s3_links_def)
next
  case (Cons g es hs gs)
  show ?case
    using Cons.IH [of "acc @ map JStr (filter (prefix ''s3://'') hs)"]
    by (simp add: collect_granules_step [OF Cons.hyps(1)] s3_links_def
          del: collect_granules.simps)
qed

lemma page_step_listing:
  assumes "is_listing r gs"
  shows "page_step (Inr r) acc =
           (if gs = [] then Break else Continue (acc @ map JStr (s3_links gs)))"
proof -
  from assms obtain j feed es where ok: "raise_for_status r = Inr ()"
    and b: "body r = Some j" and f: "getitem_key j ''feed'' = Inr feed"
    and e: "getitem_key feed ''entry'' = Inr (JArr es)"
    and all: "list_all2 is_granule es gs"
    by (auto simp: is_listing_def split: option.splits sum.splits pyval.splits)
  have len: "(es = []) = (gs = [])"
    using all by (auto dest: list_all2_lengthD)
  show ?thesis
    using len by (simp add: page_step_def ok json_def b f e collect_granules_ok [OF all])
qed

lemma search_loop_page:
  assumes "is_page w cid p gs"
  shows "search_loop w cid p acc sent =
           (if gs = [] then Some (Inr acc, sent @ [Post granulesearch (page_request cid p)])
            else search_loop w cid (p + 1) (acc @ map JStr (s3_links gs))
                   (sent @ [Post granulesearch (page_request cid p)]))"
proof -
  from assms obtain r where r: "http_post w granulesearch (page_request cid p) = Inr r"
    and l: "is_listing r gs"
    by (auto simp: is_page_def split: sum.splits)
  show ?thesis
    by (subst search_loop.simps) (simp add: r page_step_listing [OF l])
qed

lemma page_posts_Cons:
  "p < n \<Longrightarrow> page_posts cid p n = Post granulesearch (page_request cid p) # page_posts cid (Suc p) n"
  by (simp add: page_posts_def upt_conv_Cons)

lemma page_posts_single:
  "page_posts cid p (Suc p) = [Post granulesearch (page_request cid p)]"
  by (simp add: page_posts_def)

lemma search_loop_run:
  assumes "p \<le> n"
    and "\<forall>k. p \<le> k \<and> k \<le> n \<longrightarrow> is_page w cid k (pages k)"
    and "\<forall>k. p \<le> k \<and> k < n \<longrightarrow> pages k \<noteq> []"
    and "pages n = []"
  shows "search_loop w cid p acc sent =
           Some (Inr (acc @ map JStr (concat (map (\<lambda>k. s3_links (pages k)) [p..<n]))),
                 sent @ page_posts cid p (Suc n))"
  using assms
proof (induction "n - p" arbitrary: p acc sent)
  case 0
  then have "p = n" by simp
  have "is_page w cid n (pages n)"
    using "0.prems"(2) \<open>p = n\<close> by blast
  from search_loop_page [OF this] show ?case
    using \<open>p = n\<close> \<open>pages n = []\<close> by (simp add: page_posts_single)
next
  case (Suc d)
  then have lt: "p < n" by simp
  with Suc.prems have pg: "is_page w cid p (pages p)" and ne: "pages p \<noteq> []" by simp_all
  have IH: "search_loop w cid (Suc p) acc' sent' =
           Some (Inr (acc' @ map JStr (concat (map (\<lambda>k. s3_links (pages k)) [Suc p..<n]))),
                 sent' @ page_posts cid (Suc p) (Suc n))" for acc' sent'
  proof (rule Suc.hyps(1))
    show "d = n - Suc p" using Suc.hyps(2) by simp
    show "Suc p \<le> n" using lt by simp
    show "\<forall>k. Suc p \<le> k \<and> k \<le> n \<longrightarrow> is_page w cid k (pages k)"
      using Suc.prems(2) by (simp add: Suc_le_eq)
    show "\<forall>k. Suc p \<le> k \<and> k < n \<longrightarrow> pages k \<noteq> []"
      using Suc.prems(3) by (simp add: Suc_le_eq)
    show "pages n = []" by (rule Suc.prems(4))
  qed
  have up: "[p..<n] = p # [Suc p..<n]"
    using lt by (simp add: upt_conv_Cons)
  have posts: "page_posts cid p (Suc n) =
      Post granulesearch (page_request cid p) # page_posts cid (Suc p) (Suc n)"
    using lt by (simp add: page_posts_Cons)
  show ?case
    using ne by (simp add: search_loop_page [OF pg] IH up posts)
qed

lemma search_loop_forever:
  assumes "\<forall>k\<ge>p. is_page w cid k (pages k) \<and> pages k \<noteq> []"
  shows "search_loop w cid p acc sent = None"
proof (rule ccontr)
  assume "search_loop w cid p acc sent \<noteq> None"
  then obtain y where y: "search_loop w cid p acc sent = Some y" by auto
  have "\<not> (\<forall>k\<ge>p. is_page w cid k (pages k) \<and> pages k \<noteq> [])"
  proof (rule search_loop.raw_induct
      [where P = "\<lambda>w cid p acc sent y. \<not> (\<forall>k\<ge>p. is_page w cid k (pages k) \<and> pages k \<noteq> [])",
       OF _ y])
    fix loop :: "world \<Rightarrow> pyval \<Rightarrow> nat \<Rightarrow> pyval list \<Rightarrow> request list
        \<Rightarrow> ((error + pyval list) \<times> request list) option"
      and w' cid' p' acc' sent' y'
    assume IH: "\<And>w cid p acc sent y. loop w cid p acc sent = Some y \<Longrightarrow>
              \<not> (\<forall>k\<ge>p. is_page w cid k (pages k) \<and> pages k \<noteq> [])"
    assume eq: "(case page_step (http_post w' granulesearch (page_request cid' p')) acc' of
              Raise e \<Rightarrow> Some (Inl e, sent' @ [Post granulesearch (page_request cid' p')])
            | Break \<Rightarrow> Some (Inr acc', sent' @ [Post granulesearch (page_request cid' p')])
            | Continue s3_arr' \<Rightarrow>
                loop w' cid' (p' + 1) s3_arr'
                  (sent' @ [Post granulesearch (page_request cid' p')])) = Some y'"
    show "\<not> (\<forall>k\<ge>p'. is_page w' cid' k (pages k) \<and> pages k \<noteq> [])"
    proof
      assume all: "\<forall>k\<ge>p'. is_page w' cid' k (pages k) \<and> pages k \<noteq> []"
      then have pg: "is_page w' cid' p' (pages p')" and ne: "pages p' \<noteq> []" by simp_all
      from pg obtain r where r: "http_post w' granulesearch (page_request cid' p') = Inr r"
        and l: "is_listing r (pages p')"
        by (auto simp: is_page_def split: sum.splits)
      from eq have "loop w' cid' (p' + 1) (acc' @ map JStr (s3_links (pages p')))
            (sent' @ [Post granulesearch (page_request cid' p')]) = Some y'"
        using ne by (simp add: r page_step_listing [OF l])
      from IH [OF this]
      have "\<not> (\<forall>k\<ge>p' + 1. is_page w' cid' k (pages k) \<and> pages k \<noteq> [])" .
      moreover from all have "\<forall>k\<ge>p' + 1. is_page w' cid' k (pages k) \<and> pages k \<noteq> []"
        by (meson add_leD1)
      ultimately show False by blast
    qed
  qed
  with assms show False by blast
qed

text \<open>Whatever the pages answer, a run that ends has asked for consecutive pages.\<close>

lemma search_loop_sent:
  assumes "search_loop w cid p acc sent = Some y"
  shows "\<exists>m\<ge>p. snd y = sent @ page_posts cid p (Suc m)"
proof (rule search_loop.raw_induct
    [where P = "\<lambda>w cid p acc sent y. \<exists>m\<ge>p. snd y = sent @ page_posts cid p (Suc m)",
     OF _ assms])
  fix loop :: "world \<Rightarrow> pyval \<Rightarrow> nat \<Rightarrow> pyval list \<Rightarrow> request list
      \<Rightarrow> ((error + pyval list) \<times> request list) option"
    and w' cid' p' acc' sent' y'
  assume IH: "\<And>w cid p acc sent y. loop w cid p acc sent = Some y \<Longrightarrow>
            \<exists>m\<ge>p. snd y = sent @ page_posts cid p (Suc m)"
  assume eq: "(case page_step (http_post w' granulesearch (page_request cid' p')) acc' of
            Raise e \<Rightarrow> Some (Inl e, sent' @ [Post granulesearch (page_request cid' p')])
          | Break \<Rightarrow> Some (Inr acc', sent' @ [Post granulesearch (page_request cid' p')])
          | Continue s3_arr' \<Rightarrow>
              loop w' cid' (p' + 1) s3_arr'
                (sent' @ [Post granulesearch (page_request cid' p')])) = Some y'"
  show "\<exists>m\<ge>p'. snd y' = sent' @ page_posts cid' p' (Suc m)"
  proof (cases "page_step (http_post w' granulesearch (page_request cid' p')) acc'")
    case (Raise e)
    with eq have "snd y' = sent' @ page_posts cid' p' (Suc p')"
      by (auto simp: page_posts_single)
    then show ?thesis by blast
  next
    case Break
    with eq have "snd y' = sent' @ page_posts cid' p' (Suc p')"
      by (auto simp: page_posts_single)
    then show ?thesis by blast
  next
    case (Continue s3_arr')
    with eq have "loop w' cid' (p' + 1) s3_arr'
        (sent' @ [Post granulesearch (page_request cid' p')]) = Some y'"
      by simp
    from IH [OF this] obtain m where m: "p' + 1 \<le> m"
      and s: "snd y' = (sent' @ [Post granulesearch (page_request cid' p')])
                 @ page_posts cid' (p' + 1) (Suc m)"
      by blast
    from m have "p' < Suc m" by simp
    from page_posts_Cons [OF this, of cid'] s have "snd y' = sent' @ page_posts cid' p' (Suc m)"
      by simp
    with m show ?thesis by (intro exI [of _ m]) simp
  qed
qed

section \<open>Mocked endpoints are well-formed listings\<close>

lemma is_link_link_of: "is_link (link_of h) h"
  by (simp add: is_link_def link_of_def)

lemma is_granule_granule_of: "is_granule (granule_of hs) hs"
  by (simp add: is_granule_def granule_of_def list_all2_map1 is_link_link_of list_all2_same)

lemma is_listing_feed_of: "is_listing (ok_response (feed_of (map granule_of gs))) gs"
  by (simp add: is_listing_def ok_response_def feed_of_def raise_for_status_def
      list_all2_map1 is_granule_granule_of list_all2_same)

lemma is_page_catalog: "is_page (catalog lookup pages) cid k (pages k)"
  by (simp add: is_page_def catalog_def page_request_def is_listing_feed_of)

lemma concept_id_of_collection:
  "concept_id_of (ok_response collection_body) = Inr (JStr ''C2000-ORNL'')"
  by (simp add: concept_id_of_def json_def ok_response_def collection_body_def feed_of_def)

section \<open>Pagination\<close>

text \<open>
  Claim C3. Let the lookup give the collection \<open>cid\<close> and let the granule listing be
  given by \<open>pages\<close>, from page number to entry list, with \<open>n\<close> the first empty page.
  Then \<^verbatim>\<open>search_cmr\<close> returns the object-store links of the pages \<open>1\<close> to \<open>n - 1\<close>,
  concatenated in page order, and has issued, after the lookup, exactly the requests
  for the pages \<open>1\<close> to \<open>n\<close>, each with page size 2000.
\<close>

theorem search_cmr_pagination:
  assumes "http_get w (doisearch doi) = Inr r" and "concept_id_of r = Inr cid"
    and "1 \<le> n"
    and "\<forall>k. 1 \<le> k \<and> k \<le> n \<longrightarrow> is_page w cid k (pages k)"
    and "\<forall>k. 1 \<le> k \<and> k < n \<longrightarrow> pages k \<noteq> []"
    and "pages n = []"
  shows "search_cmr w doi =
           Some (Inr (map JStr (concat (map (\<lambda>k. s3_links (pages k)) [1..<n]))),
                 Get (doisearch doi) #
                 map (\<lambda>k. Post granulesearch
                        \<lparr>collection_concept_id = cid, page_size = 2000, page_num = k\<rparr>)
                   [1..<Suc n])"
proof -
  have "search_cmr w doi = search_loop w cid 1 [] [Get (doisearch doi)]"
    by (simp add: search_cmr_def assms(1,2))
  also have "\<dots> = Some (Inr ([] @ map JStr (concat (map (\<lambda>k. s3_links (pages k)) [1..<n]))),
                 [Get (doisearch doi)] @ page_posts cid 1 (Suc n))"
    using assms(3-6) by (rule search_loop_run)
  finally show ?thesis
    by (simp add: page_posts_def page_request_def PAGE_SIZE_def)
qed

theorem search_cmr_pagination_witness:
  "search_cmr (catalog (ok_response collection_body) two_pages) ''10.3334/ORNLDAAC/1984'' =
     Some (Inr [JStr ''s3://bucket/a.slc'', JStr ''s3://bucket/b.ann''],
           [Get (doisearch ''10.3334/ORNLDAAC/1984''),
            Post granulesearch \<lparr>collection_concept_id = JStr ''C2000-ORNL'',
                                 page_size = 2000, page_num = 1\<rparr>,
            Post granulesearch \<lparr>collection_concept_id = JStr ''C2000-ORNL'',
                                 page_size = 2000, page_num = 2\<rparr>,
            Post granulesearch \<lparr>collection_concept_id = JStr ''C2000-ORNL'',
                                 page_size = 2000, page_num = 3\<rparr>])"
proof -
  let ?w = "catalog (ok_response collection_body) two_pages"
  have get: "http_get ?w (doisearch ''10.3334/ORNLDAAC/1984'') = Inr (ok_response collection_body)"
    by (simp add: catalog_def)
  have pages: "\<forall>k. 1 \<le> k \<and> k \<le> 3 \<longrightarrow> is_page ?w (JStr ''C2000-ORNL'') k (two_pages k)"
    by (simp add: is_page_catalog)
  have nonempty: "\<forall>k. 1 \<le> k \<and> k < 3 \<longrightarrow> two_pages k \<noteq> []"
    by (simp add: two_pages_def)
  have empty: "two_pages 3 = []"
    by (simp add: two_pages_def)
  have upt: "[Suc 0..<3] = [Suc 0, 2]" "[Suc 0..<4] = [Suc 0, 2, 3]"
    by (simp_all add: upt_rec)
  show ?thesis
    using search_cmr_pagination [OF get concept_id_of_collection _ pages nonempty empty]
    by (simp add: upt two_pages_def s3_links_def)
qed

section \<open>Link filtering\<close>

lemma s3_links_filter: "s3_links gs = filter (prefix ''s3://'') (concat gs)"
  by (simp add: s3_links_def filter_concat)

lemma concat_s3_links:
  "concat (map (\<lambda>k. s3_links (pages k)) ks) =
     filter (prefix ''s3://'') (concat (map (\<lambda>k. concat (pages k)) ks))"
  by (induction ks) (simp_all add: s3_links_filter)

text \<open>
  Claim C4. Let the lookup give the collection \<open>cid\<close> and let the listing be given by
  \<open>pages\<close>, each granule record by the hrefs of its links, with \<open>n\<close> the first empty
  page. Then what \<^verbatim>\<open>search_cmr\<close> returns is the list of all hrefs of all link records of
  the pages before \<open>n\<close>, in order, with exactly those kept that start with \<^verbatim>\<open>s3://\<close>.
  The loop over the granule records \<open>es\<close> of one page, with hrefs \<open>gs\<close>, returns
  \<^verbatim>\<open>s3_arr\<close> extended by exactly the hrefs of \<open>gs\<close> that start with \<^verbatim>\<open>s3://\<close>.
\<close>

theorem search_cmr_keeps_s3_only:
  assumes "http_get w (doisearch doi) = Inr r" and "concept_id_of r = Inr cid"
    and "1 \<le> n"
    and "\<forall>k. 1 \<le> k \<and> k \<le> n \<longrightarrow> is_page w cid k (pages k)"
    and "\<forall>k. 1 \<le> k \<and> k < n \<longrightarrow> pages k \<noteq> []"
    and "pages n = []"
  shows "search_cmr w doi =
           Some (Inr (map JStr (filter (prefix ''s3://'')
                        (concat (map (\<lambda>k. concat (pages k)) [1..<n])))),
                 Get (doisearch doi) # page_posts cid 1 (Suc n)) \<and>
         (list_all2 is_granule es gs \<longrightarrow>
            collect_granules es s3_arr =
              Inr (s3_arr @ map JStr (filter (prefix ''s3://'') (concat gs))))"
proof
  have "search_cmr w doi = search_loop w cid 1 [] [Get (doisearch doi)]"
    by (simp add: search_cmr_def assms(1,2))
  also have "\<dots> = Some (Inr ([] @ map JStr (concat (map (\<lambda>k. s3_links (pages k)) [1..<n]))),
                 [Get (doisearch doi)] @ page_posts cid 1 (Suc n))"
    using assms(3-6) by (rule search_loop_run)
  finally show "search_cmr w doi =
           Some (Inr (map JStr (filter (prefix ''s3://'')
                        (concat (map (\<lambda>k. concat (pages k)) [1..<n])))),
                 Get (doisearch doi) # page_posts cid 1 (Suc n))"
    by (simp add: concat_s3_links)
next
  show "list_all2 is_granule es gs \<longrightarrow>
          collect_granules es s3_arr =
            Inr (s3_arr @ map JStr (filter (prefix ''s3://'') (concat gs)))"
    by (simp add: collect_granules_ok s3_links_filter)
qed

theorem search_cmr_keeps_s3_only_witness:
  "search_cmr (catalog (ok_response collection_body) three_links) ''10.3334/ORNLDAAC/1984'' =
     Some (Inr [JStr ''s3://bucket/a.slc''],
           [Get (doisearch ''10.3334/ORNLDAAC/1984''),
            Post granulesearch (page_request (JStr ''C2000-ORNL'') 1),
            Post granulesearch (page_request (JStr ''C2000-ORNL'') 2)]) \<and>
   collect_granules
     [granule_of [''s3://bucket/a.slc'', ''https://host/a.slc'', ''ftp://host/a.slc'']] [] =
     Inr [JStr ''s3://bucket/a.slc'']"
proof -
  let ?w = "catalog (ok_response collection_body) three_links"
  have get: "http_get ?w (doisearch ''10.3334/ORNLDAAC/1984'') = Inr (ok_response collection_body)"
    by (simp add: catalog_def)
  have pages: "\<forall>k. 1 \<le> k \<and> k \<le> 2 \<longrightarrow> is_page ?w (JStr ''C2000-ORNL'') k (three_links k)"
    by (simp add: is_page_catalog)
  have nonempty: "\<forall>k. 1 \<le> k \<and> k < 2 \<longrightarrow> three_links k \<noteq> []"
    by (simp add: three_links_def)
  have empty: "three_links 2 = []"
    by (simp add: three_links_def)
  have upt: "[Suc 0..<2] = [Suc 0]" "[Suc 0..<3] = [Suc 0, 2]"
    by (simp_all add: upt_rec)
  have granule: "list_all2 is_granule
      [granule_of [''s3://bucket/a.slc'', ''https://host/a.slc'', ''ftp://host/a.slc'']]
      [[''s3://bucket/a.slc'', ''https://host/a.slc'', ''ftp://host/a.slc'']]"
    by (simp add: is_granule_granule_of)
  show ?thesis
    using search_cmr_keeps_s3_only [OF get concept_id_of_collection _ pages nonempty empty,
        where es = "[granule_of [''s3://bucket/a.slc'', ''https://host/a.slc'', ''ftp://host/a.slc'']]"
          and gs = "[[''s3://bucket/a.slc'', ''https://host/a.slc'', ''ftp://host/a.slc'']]"
          and s3_arr = "[]"]
      granule
    by (simp add: upt three_links_def page_posts_def)
qed

section \<open>Termination\<close>

text \<open>
  Claim C10. With the granule listing given by \<open>pages\<close>, from page number to entry list,
  \<^verbatim>\<open>search_cmr\<close> returns if and only if some page \<open>n \<ge> 1\<close> is empty; when every page
  has an entry, the loop never exits.
\<close>

theorem search_cmr_terminates_iff:
  assumes "http_get w (doisearch doi) = Inr r" and "concept_id_of r = Inr cid"
    and "\<forall>k\<ge>1. is_page w cid k (pages k)"
  shows "((\<exists>y. search_cmr w doi = Some y) \<longleftrightarrow> (\<exists>n\<ge>1. pages n = [])) \<and>
         ((\<forall>k\<ge>1. pages k \<noteq> []) \<longrightarrow> search_cmr w doi = None)"
proof -
  have run: "search_cmr w doi = search_loop w cid 1 [] [Get (doisearch doi)]"
    by (simp add: search_cmr_def assms(1,2))
  have forever: "search_cmr w doi = None" if "\<forall>k\<ge>1. pages k \<noteq> []"
    unfolding run using assms(3) that by (intro search_loop_forever [of 1 w cid pages]) simp
  have returns: "\<exists>y. search_cmr w doi = Some y" if "\<exists>n\<ge>1. pages n = []"
  proof -
    define n where "n = (LEAST n. 1 \<le> n \<and> pages n = [])"
    from that have "\<exists>n. 1 \<le> n \<and> pages n = []" by blast
    then have n: "1 \<le> n \<and> pages n = []"
      unfolding n_def by (rule LeastI_ex)
    have least: "pages k \<noteq> []" if "1 \<le> k" "k < n" for k
      using not_less_Least [of k "\<lambda>n. 1 \<le> n \<and> pages n = []"] that unfolding n_def by auto
    have "search_loop w cid 1 [] [Get (doisearch doi)] =
            Some (Inr ([] @ map JStr (concat (map (\<lambda>k. s3_links (pages k)) [1..<n]))),
                  [Get (doisearch doi)] @ page_posts cid 1 (Suc n))"
      using n assms(3) least by (intro search_loop_run) auto
    then show ?thesis unfolding run by blast
  qed
  from forever returns show ?thesis by (cases "search_cmr w doi") auto
qed

theorem search_cmr_terminates_iff_witness:
  "search_cmr (catalog (ok_response collection_body) endless_pages) ''10.3334/ORNLDAAC/1984''
     = None \<and>
   (\<exists>y. search_cmr (catalog (ok_response collection_body) two_pages)
           ''10.3334/ORNLDAAC/1984'' = Some y)"
proof -
  have get: "http_get (catalog (ok_response collection_body) pages)
      (doisearch ''10.3334/ORNLDAAC/1984'') = Inr (ok_response collection_body)" for pages
    by (simp add: catalog_def)
  have pages: "\<forall>k\<ge>1. is_page (catalog (ok_response collection_body) pages)
      (JStr ''C2000-ORNL'') k (pages k)" for pages
    by (simp add: is_page_catalog)
  have "\<forall>k\<ge>1. endless_pages k \<noteq> []"
    by (simp add: endless_pages_def)
  moreover have "\<exists>n\<ge>1. two_pages n = []"
    by (rule exI [of _ 3]) (simp add: two_pages_def)
  ultimately show ?thesis
    using search_cmr_terminates_iff [OF get concept_id_of_collection pages, of endless_pages]
      search_cmr_terminates_iff [OF get concept_id_of_collection pages, of two_pages]
    by blast
qed

section \<open>HTTP error statuses\<close>

lemma page_step_http_error:
  assumes "400 \<le> status_code r" and "status_code r < 600"
  shows "page_step (Inr r) acc = Raise (HTTPError (status_code r))"
  using assms by (simp add: page_step_def raise_for_status_def)

lemma search_loop_http_error:
  assumes "http_post w granulesearch (page_request cid p) = Inr r"
    and "400 \<le> status_code r" and "status_code r < 600"
  shows "search_loop w cid p acc sent =
           Some (Inl (HTTPError (status_code r)), sent @ [Post granulesearch (page_request cid p)])"
  by (subst search_loop.simps) (simp add: assms(1) page_step_http_error [OF assms(2,3)])

lemma get_s3credentials_http_error:
  assumes "http_get w (s3credentials_url daac) = Inr r"
    and "400 \<le> status_code r" and "status_code r < 600"
  shows "get_s3credentials w daac = Inl (HTTPError (status_code r))"
  using assms by (simp add: get_s3credentials_def raise_for_status_def)

lemma search_cmr_lookup_fails:
  assumes "http_get w (doisearch doi) = Inr r" and "concept_id_of r = Inl e"
  shows "search_cmr w doi = Some (Inl e, [Get (doisearch doi)])"
  by (simp add: search_cmr_def assms)

lemma search_cmr_lookup_ok:
  assumes "http_get w (doisearch doi) = Inr r" and "concept_id_of r = Inr cid"
  shows "search_cmr w doi = search_loop w cid 1 [] [Get (doisearch doi)]"
  by (simp add: search_cmr_def assms)

text \<open>
  Claim C7. The lookup of the collection is the one request whose status is not
  checked: answered with status 500 and a well-formed body, \<^verbatim>\<open>search_cmr\<close> raises
  nothing, goes on to the granule listing and returns.
\<close>

theorem search_cmr_lookup_status_unchecked:
  "search_cmr lookup_500 ''10.3334/ORNLDAAC/1984'' =
     Some (Inr [],
           [Get (doisearch ''10.3334/ORNLDAAC/1984''),
            Post granulesearch \<lparr>collection_concept_id = JStr ''C2000-ORNL'',
                                 page_size = 2000, page_num = 1\<rparr>])"
proof -
  have get: "http_get lookup_500 (doisearch ''10.3334/ORNLDAAC/1984'') =
      Inr \<lparr>status_code = 500, body = Some collection_body\<rparr>"
    by (simp add: lookup_500_def catalog_def)
  have cid: "concept_id_of \<lparr>status_code = 500, body = Some collection_body\<rparr> =
      Inr (JStr ''C2000-ORNL'')"
    by (simp add: concept_id_of_def json_def collection_body_def feed_of_def)
  have page: "is_page lookup_500 (JStr ''C2000-ORNL'') 1 []"
    using is_page_catalog [of "\<lparr>status_code = 500, body = Some collection_body\<rparr>" "\<lambda>k. []"]
    by (simp add: lookup_500_def)
  have "search_cmr lookup_500 ''10.3334/ORNLDAAC/1984'' =
      search_loop lookup_500 (JStr ''C2000-ORNL'') 1 [] [Get (doisearch ''10.3334/ORNLDAAC/1984'')]"
    using get cid by (rule search_cmr_lookup_ok)
  also have "\<dots> = Some (Inr [], [Get (doisearch ''10.3334/ORNLDAAC/1984'')] @
      [Post granulesearch (page_request (JStr ''C2000-ORNL'') 1)])"
    using search_loop_page [OF page] by simp
  finally show ?thesis
    by (simp add: page_request_def PAGE_SIZE_def)
qed

section \<open>Collection lookup\<close>

text \<open>
  Claim C9. Let the one lookup request be answered with a JSON object \<open>obj\<close>. When
  \<open>obj\<close> has no \<^verbatim>\<open>feed\<close>, the feed no \<^verbatim>\<open>entry\<close>, or the first entry no \<^verbatim>\<open>id\<close>,
  \<^verbatim>\<open>search_cmr\<close> raises \<^verbatim>\<open>KeyError\<close>; when the entry list is empty it raises
  \<^verbatim>\<open>IndexError\<close>; in each case the lookup is the only request issued. Otherwise the
  \<^verbatim>\<open>id\<close> of the first entry is the collection that the loop pages through: every
  request after the lookup is a page request for that collection.
\<close>

theorem search_cmr_doi_lookup:
  assumes "http_get w (doisearch doi) = Inr r" and "body r = Some (JObj obj)"
  shows "(map_of obj ''feed'' = None \<longrightarrow>
            search_cmr w doi = Some (Inl (KeyError (JStr ''feed'')), [Get (doisearch doi)])) \<and>
         (map_of obj ''feed'' = Some (JObj feed) \<and> map_of feed ''entry'' = None \<longrightarrow>
            search_cmr w doi = Some (Inl (KeyError (JStr ''entry'')), [Get (doisearch doi)])) \<and>
         (map_of obj ''feed'' = Some (JObj feed) \<and> map_of feed ''entry'' = Some (JArr []) \<longrightarrow>
            search_cmr w doi = Some (Inl IndexError, [Get (doisearch doi)])) \<and>
         (map_of obj ''feed'' = Some (JObj feed) \<and>
          map_of feed ''entry'' = Some (JArr (JObj e0 # es)) \<and> map_of e0 ''id'' = None \<longrightarrow>
            search_cmr w doi = Some (Inl (KeyError (JStr ''id'')), [Get (doisearch doi)])) \<and>
         (map_of obj ''feed'' = Some (JObj feed) \<and>
          map_of feed ''entry'' = Some (JArr (JObj e0 # es)) \<and> map_of e0 ''id'' = Some cid \<longrightarrow>
            search_cmr w doi = search_loop w cid 1 [] [Get (doisearch doi)] \<and>
            (\<forall>res sent. search_cmr w doi = Some (res, sent) \<longrightarrow>
               (\<exists>m\<ge>1. sent = Get (doisearch doi) # page_posts cid 1 (Suc m))))"
proof (intro conjI impI)
  assume "map_of obj ''feed'' = None"
  then have "concept_id_of r = Inl (KeyError (JStr ''feed''))"
    by (simp add: concept_id_of_def json_def assms(2))
  from search_cmr_lookup_fails [OF assms(1) this]
  show "search_cmr w doi = Some (Inl (KeyError (JStr ''feed'')), [Get (doisearch doi)])" .
next
  assume "map_of obj ''feed'' = Some (JObj feed) \<and> map_of feed ''entry'' = None"
  then have "concept_id_of r = Inl (KeyError (JStr ''entry''))"
    by (simp add: concept_id_of_def json_def assms(2))
  from search_cmr_lookup_fails [OF assms(1) this]
  show "search_cmr w doi = Some (Inl (KeyError (JStr ''entry'')), [Get (doisearch doi)])" .
next
  assume "map_of obj ''feed'' = Some (JObj feed) \<and> map_of feed ''entry'' = Some (JArr [])"
  then have "concept_id_of r = Inl IndexError"
    by (simp add: concept_id_of_def json_def assms(2))
  from search_cmr_lookup_fails [OF assms(1) this]
  show "search_cmr w doi = Some (Inl IndexError, [Get (doisearch doi)])" .
next
  assume "map_of obj ''feed'' = Some (JObj feed) \<and>
          map_of feed ''entry'' = Some (JArr (JObj e0 # es)) \<and> map_of e0 ''id'' = None"
  then have "concept_id_of r = Inl (KeyError (JStr ''id''))"
    by (simp add: concept_id_of_def json_def assms(2))
  from search_cmr_lookup_fails [OF assms(1) this]
  show "search_cmr w doi = Some (Inl (KeyError (JStr ''id'')), [Get (doisearch doi)])" .
next
  assume "map_of obj ''feed'' = Some (JObj feed) \<and>
          map_of feed ''entry'' = Some (JArr (JObj e0 # es)) \<and> map_of e0 ''id'' = Some cid"
  then have "concept_id_of r = Inr cid"
    by (simp add: concept_id_of_def json_def assms(2))
  from search_cmr_lookup_ok [OF assms(1) this]
  show "search_cmr w doi = search_loop w cid 1 [] [Get (doisearch doi)]" .
next
  assume "map_of obj ''feed'' = Some (JObj feed) \<and>
          map_of feed ''entry'' = Some (JArr (JObj e0 # es)) \<and> map_of e0 ''id'' = Some cid"
  then have "concept_id_of r = Inr cid"
    by (simp add: concept_id_of_def json_def assms(2))
  from search_cmr_lookup_ok [OF assms(1) this]
  have run: "search_cmr w doi = search_loop w cid 1 [] [Get (doisearch doi)]" .
  show "\<forall>res sent. search_cmr w doi = Some (res, sent) \<longrightarrow>
          (\<exists>m\<ge>1. sent = Get (doisearch doi) # page_posts cid 1 (Suc m))"
  proof (intro allI impI)
    fix res sent
    assume "search_cmr w doi = Some (res, sent)"
    with run have "search_loop w cid 1 [] [Get (doisearch doi)] = Some (res, sent)" by simp
    from search_loop_sent [OF this]
    show "\<exists>m\<ge>1. sent = Get (doisearch doi) # page_posts cid 1 (Suc m)" by simp
  qed
qed

theorem search_cmr_doi_lookup_witness:
  "search_cmr (catalog (ok_response (JObj [(''errors'', JArr [JStr ''Invalid DOI''])])) two_pages)
     ''10.3334/ORNLDAAC/0'' =
     Some (Inl (KeyError (JStr ''feed'')), [Get (doisearch ''10.3334/ORNLDAAC/0'')]) \<and>
   search_cmr (catalog (ok_response (JObj [(''feed'', JObj [])])) two_pages)
     ''10.3334/ORNLDAAC/0'' =
     Some (Inl (KeyError (JStr ''entry'')), [Get (doisearch ''10.3334/ORNLDAAC/0'')]) \<and>
   search_cmr (catalog (ok_response (feed_of [])) two_pages) ''10.3334/ORNLDAAC/0'' =
     Some (Inl IndexError, [Get (doisearch ''10.3334/ORNLDAAC/0'')]) \<and>
   search_cmr (catalog (ok_response (feed_of [JObj [(''title'', JStr ''SLC'')]])) two_pages)
     ''10.3334/ORNLDAAC/0'' =
     Some (Inl (KeyError (JStr ''id'')), [Get (doisearch ''10.3334/ORNLDAAC/0'')]) \<and>
   search_cmr (catalog (ok_response collection_body) two_pages) ''10.3334/ORNLDAAC/1984'' =
     search_loop (catalog (ok_response collection_body) two_pages) (JStr ''C2000-ORNL'') 1 []
       [Get (doisearch ''10.3334/ORNLDAAC/1984'')]"
proof -
  have get: "http_get (catalog (ok_response j) two_pages) (doisearch doi) = Inr (ok_response j)"
    for j doi
    by (simp add: catalog_def)
  have b: "body (ok_response (JObj obj)) = Some (JObj obj)" for obj
    by (simp add: ok_response_def)
  show ?thesis
    using
      search_cmr_doi_lookup
        [where obj = "[(''errors'', JArr [JStr ''Invalid DOI''])]"
           and doi = "''10.3334/ORNLDAAC/0''", OF get b]
      search_cmr_doi_lookup
        [where obj = "[(''feed'', JObj [])]" and feed = "[]"
           and doi = "''10.3334/ORNLDAAC/0''", OF get b]
      search_cmr_doi_lookup
        [where obj = "[(''feed'', JObj [(''entry'', JArr [])])]"
           and feed = "[(''entry'', JArr [])]"
           and doi = "''10.3334/ORNLDAAC/0''", OF get b]
      search_cmr_doi_lookup
        [where obj = "[(''feed'', JObj [(''entry'', JArr [JObj [(''title'', JStr ''SLC'')]])])]"
           and feed = "[(''entry'', JArr [JObj [(''title'', JStr ''SLC'')]])]"
           and ?e0.0 = "[(''title'', JStr ''SLC'')]" and es = "[]"
           and doi = "''10.3334/ORNLDAAC/0''", OF get b]
      search_cmr_doi_lookup
        [where obj = "[(''feed'', JObj [(''entry'', JArr [JObj [(''id'', JStr ''C2000-ORNL'')]])])]"
           and feed = "[(''entry'', JArr [JObj [(''id'', JStr ''C2000-ORNL'')]])]"
           and ?e0.0 = "[(''id'', JStr ''C2000-ORNL'')]" and es = "[]"
           and cid = "JStr ''C2000-ORNL''"
           and doi = "''10.3334/ORNLDAAC/1984''", OF get b]
    by (simp add: feed_of_def collection_body_def)
qed

section \<open>Credentials\<close>

text \<open>
  Claim C5. When the credential endpoint answers without an error status and with a
  JSON body, \<^verbatim>\<open>get_s3credentials\<close> returns that body as it is.
\<close>

theorem get_s3credentials_returns_body:
  assumes "http_get w (s3credentials_url daac) = Inr r"
    and "status_code r < 400 \<or> 600 \<le> status_code r"
    and "body r = Some j"
  shows "get_s3credentials w daac = Inr j"
  using assms by (auto simp: get_s3credentials_def raise_for_status_def json_def)

theorem get_s3credentials_returns_body_witness:
  "get_s3credentials credentials_world ''ornldaac'' = Inr credentials_body \<and>
   getitem_key credentials_body ''accessKeyId'' = Inr (JStr ''A'') \<and>
   getitem_key credentials_body ''secretAccessKey'' = Inr (JStr ''B'') \<and>
   getitem_key credentials_body ''sessionToken'' = Inr (JStr ''C'') \<and>
   getitem_key credentials_body ''expiration'' = Inr (JStr ''2024-01-01T00:00:00Z'')"
proof -
  have get: "http_get credentials_world (s3credentials_url ''ornldaac'') =
      Inr (ok_response credentials_body)"
    by (simp add: credentials_world_def)
  have ok: "status_code (ok_response credentials_body) < 400 \<or>
      600 \<le> status_code (ok_response credentials_body)"
    by (simp add: ok_response_def)
  have b: "body (ok_response credentials_body) = Some credentials_body"
    by (simp add: ok_response_def)
  show ?thesis
    using get_s3credentials_returns_body [OF get ok b]
    by (simp add: credentials_body_def)
qed

section \<open>Raster decode\<close>

lemma concat_rows:
  "concat (map (\<lambda>i. take c (drop (i * c) xs)) [0..<r]) = take (r * c) xs"
proof (induction r)
  case 0
  show ?case by simp
next
  case (Suc r)
  have "take (r * c) xs @ take c (drop (r * c) xs) = take (r * c + c) xs"
    by (simp add: take_add)
  with Suc show ?case by (simp add: add.commute)
qed

lemma concat_samples_of:
  "concat (samples_of bs) = take (8 * (length bs div 8)) bs"
  using concat_rows [of 8 bs "length bs div 8"]
  by (simp add: samples_of_def mult.commute)

lemma length_samples_of: "length (samples_of bs) = length bs div 8"
  by (simp add: samples_of_def)

lemma reshape_rows:
  assumes "reshape ds rows cols = Inr grid"
  shows "length ds = rows * cols" and "length grid = rows"
    and "\<forall>row\<in>set grid. length row = cols" and "concat grid = ds"
proof -
  from assms show len: "length ds = rows * cols"
    by (simp add: reshape_def split: if_splits)
  from assms have grid: "grid = map (\<lambda>i. take cols (drop (i * cols) ds)) [0..<rows]"
    by (simp add: reshape_def split: if_splits)
  show "length grid = rows" by (simp add: grid)
  show "concat grid = ds" by (simp add: grid concat_rows len)
  show "\<forall>row\<in>set grid. length row = cols"
  proof
    fix row assume "row \<in> set grid"
    then obtain i where i: "i < rows" and row: "row = take cols (drop (i * cols) ds)"
      by (auto simp: grid)
    from i have "Suc i \<le> rows" by simp
    then have "Suc i * cols \<le> rows * cols" by (rule mult_le_mono1)
    then have "cols \<le> length ds - i * cols" by (simp add: len)
    then show "length row = cols" by (simp add: row)
  qed
qed

lemma read_slc_mismatch:
  assumes "local_files s (last_component seg) = Some bs"
    and ne: "length bs \<noteq> 8 * (rows * cols)"
  shows "read_slc s seg rows cols = Inl ValueError"
proof (cases "length bs mod 8 \<noteq> 0 \<or> bs = []")
  case True
  then show ?thesis
    by (auto simp: read_slc_def np_memmap_def assms(1))
next
  case False
  then have m: "np_memmap s (last_component seg) = Inr (samples_of bs)"
    by (simp add: np_memmap_def assms(1))
  from False have "length bs = 8 * (length bs div 8)" by auto
  with ne have "length (samples_of bs) \<noteq> rows * cols"
    unfolding length_samples_of by auto
  then show ?thesis
    by (simp add: read_slc_def m reshape_def)
qed

lemma read_slc_grid:
  assumes "local_files s (last_component seg) = Some bs"
    and ok: "read_slc s seg rows cols = Inr grid"
  shows "length grid = rows" and "\<forall>row\<in>set grid. length row = cols"
    and "concat (concat grid) = bs"
proof -
  from ok have m: "length bs mod 8 = 0" and r: "reshape (samples_of bs) rows cols = Inr grid"
    by (auto simp: read_slc_def np_memmap_def assms(1) split: if_splits)
  from reshape_rows(2) [OF r] show "length grid = rows" .
  from reshape_rows(3) [OF r] show "\<forall>row\<in>set grid. length row = cols" .
  from m have "8 * (length bs div 8) = length bs" by auto
  then show "concat (concat grid) = bs"
    by (simp add: reshape_rows(4) [OF r] concat_samples_of)
qed

text \<open>The cell as written, with the dimensions of segment 2.\<close>

lemma slc_seg2_mismatch:
  assumes "local_files s (last_component seg2) = Some bs"
    and "length bs \<noteq> 8 * (55408 * 9900)"
  shows "slc_seg2 s seg2 = Inl ValueError"
  unfolding slc_seg2_def
  using assms by (intro read_slc_mismatch) (simp_all add: rows_s2_def cols_s2_def)

lemma last_component_x: "last_component ''s3://bucket/x.slc'' = ''x.slc''"
  by (simp add: last_component_def)

text \<open>
  Claim C6. For a file \<open>bs\<close> and any \<open>rows\<close> and \<open>cols\<close>: unless the file holds exactly
  \<open>rows * cols\<close> samples of 8 bytes, reading the raster raises \<^verbatim>\<open>ValueError\<close>; and a
  grid that is returned has \<open>rows\<close> rows of \<open>cols\<close> samples which, row after row, are
  the bytes of the file, none dropped and none added.
\<close>

theorem read_slc_dimension_mismatch:
  assumes "local_files s (last_component seg) = Some bs"
  shows "(length bs \<noteq> 8 * (rows * cols) \<longrightarrow> read_slc s seg rows cols = Inl ValueError) \<and>
         (\<forall>grid. read_slc s seg rows cols = Inr grid \<longrightarrow>
            length grid = rows \<and> (\<forall>row\<in>set grid. length row = cols) \<and>
            concat (concat grid) = bs)"
  using read_slc_mismatch [OF assms] read_slc_grid [OF assms] by blast

theorem read_slc_dimension_mismatch_witness:
  "read_slc local_only ''s3://bucket/x.slc'' 2 1 = Inl ValueError \<and>
   read_slc local_only ''s3://bucket/x.slc'' 1 1 = Inr [[raster_b]] \<and>
   concat (concat [[raster_b]]) = raster_b"
proof -
  have f: "local_files local_only (last_component ''s3://bucket/x.slc'') = Some raster_b"
    by (simp add: local_only_def last_component_x)
  have ne: "length raster_b \<noteq> 8 * (2 * 1)"
    by (simp add: raster_b_def)
  have ok: "read_slc local_only ''s3://bucket/x.slc'' 1 1 = Inr [[raster_b]]"
    by (simp add: read_slc_def np_memmap_def reshape_def samples_of_def last_component_x
        local_only_def raster_b_def)
  show ?thesis
    using read_slc_dimension_mismatch [OF f, of 2 1] read_slc_dimension_mismatch [OF f, of 1 1]
      ne ok
    by blast
qed

section \<open>Where the raster is read from\<close>

text \<open>
  Claim C8, as stated, fails: with the object in the store and no file of that name in
  the working directory the read raises \<^verbatim>\<open>FileNotFoundError\<close>, although \<^verbatim>\<open>fs_s3\<close>
  opens the object; and with a local file of other content the read returns the
  content of the local file.
\<close>

theorem raster_read_not_remote:
  "fs_s3_open remote_only ''s3://bucket/x.slc'' = Inr raster_a \<and>
   read_slc remote_only ''s3://bucket/x.slc'' 1 1 = Inl FileNotFoundError \<and>
   fs_s3_open remote_and_local ''s3://bucket/x.slc'' = Inr raster_a \<and>
   read_slc remote_and_local ''s3://bucket/x.slc'' 1 1 = Inr [[raster_b]]"
  by (simp add: fs_s3_open_def read_slc_def np_memmap_def reshape_def samples_of_def
      last_component_x remote_only_def remote_and_local_def raster_a_def raster_b_def)

lemma samples_of_length_8:
  assumes "length bs mod 8 = 0"
  shows "\<forall>x\<in>set (samples_of bs). length x = 8"
proof
  fix x assume "x \<in> set (samples_of bs)"
  then obtain i where i: "i < length bs div 8" and x: "x = take 8 (drop (8 * i) bs)"
    by (auto simp: samples_of_def)
  from i have "Suc i \<le> length bs div 8" by simp
  then have "8 * Suc i \<le> 8 * (length bs div 8)" by simp
  also from assms have "8 * (length bs div 8) = length bs" by auto
  finally have "8 \<le> length bs - 8 * i" by simp
  then show "length x = 8" by (simp add: x)
qed

lemma read_slc_absent:
  assumes "local_files s (last_component seg) = None"
  shows "read_slc s seg rows cols = Inl FileNotFoundError"
  by (simp add: read_slc_def np_memmap_def assms)

lemma read_slc_present:
  assumes f: "local_files s (last_component seg) = Some bs"
    and ne: "bs \<noteq> []" and len: "length bs = 8 * (rows * cols)"
  shows "\<exists>grid. read_slc s seg rows cols = Inr grid \<and> length grid = rows \<and>
           (\<forall>row\<in>set grid. length row = cols \<and> (\<forall>x\<in>set row. length x = 8)) \<and>
           concat (concat grid) = bs"
proof -
  from len have m: "length bs mod 8 = 0" by simp
  from len have n: "length (samples_of bs) = rows * cols"
    by (simp add: length_samples_of)
  define grid where "grid = map (\<lambda>i. take cols (drop (i * cols) (samples_of bs))) [0..<rows]"
  have r: "reshape (samples_of bs) rows cols = Inr grid"
    by (simp add: reshape_def n grid_def)
  have ok: "read_slc s seg rows cols = Inr grid"
    by (simp add: read_slc_def np_memmap_def f m ne r)
  have "\<forall>x\<in>set row. length x = 8" if "row \<in> set grid" for row
  proof
    fix x assume "x \<in> set row"
    with that have "x \<in> set (concat grid)" by auto
    then have "x \<in> set (samples_of bs)" by (simp add: reshape_rows(4) [OF r])
    with samples_of_length_8 [OF m] show "length x = 8" by blast
  qed
  with read_slc_grid [OF f ok] ok show ?thesis by blast
qed

lemma read_slc_same_file:
  assumes "local_files s' (last_component seg) = local_files s (last_component seg)"
  shows "read_slc s' seg rows cols = read_slc s seg rows cols"
  using assms by (simp add: read_slc_def np_memmap_def)

text \<open>
  Claim C8, amended. The raster is read from the file of the working directory named
  by the last component of the locator. With no such file the read raises
  \<^verbatim>\<open>FileNotFoundError\<close>. With a file \<open>bs\<close> of \<open>8 * rows * cols\<close> bytes, not empty, it
  returns a grid of \<open>rows\<close> rows of \<open>cols\<close> samples of 8 bytes which, put one after the
  other, are the bytes \<open>bs\<close> of that file. A session \<open>s'\<close> with the same file under that
  name gives the same result, whatever its object store holds.
\<close>

theorem read_slc_local_file_only:
  "(local_files s (last_component seg) = None \<longrightarrow>
      read_slc s seg rows cols = Inl FileNotFoundError) \<and>
   (local_files s (last_component seg) = Some bs \<and> bs \<noteq> [] \<and>
    length bs = 8 * (rows * cols) \<longrightarrow>
      (\<exists>grid. read_slc s seg rows cols = Inr grid \<and> length grid = rows \<and>
         (\<forall>row\<in>set grid. length row = cols \<and> (\<forall>x\<in>set row. length x = 8)) \<and>
         concat (concat grid) = bs)) \<and>
   (local_files s' (last_component seg) = local_files s (last_component seg) \<longrightarrow>
      read_slc s' seg rows cols = read_slc s seg rows cols)"
  using read_slc_absent [of s seg rows cols] read_slc_present [of s seg bs rows cols]
    read_slc_same_file [of s' seg s rows cols]
  by blast

theorem read_slc_local_file_only_witness:
  "read_slc remote_only ''s3://bucket/x.slc'' 1 1 = Inl FileNotFoundError \<and>
   read_slc remote_and_local ''s3://bucket/x.slc'' 1 1 = Inr [[raster_b]] \<and>
   read_slc local_only ''s3://bucket/x.slc'' 1 1 =
     read_slc remote_and_local ''s3://bucket/x.slc'' 1 1"
proof -
  have absent: "local_files remote_only (last_component ''s3://bucket/x.slc'') = None"
    by (simp add: remote_only_def)
  have present: "local_files remote_and_local (last_component ''s3://bucket/x.slc'') =
      Some raster_b"
    by (simp add: remote_and_local_def last_component_x)
  have same: "local_files local_only (last_component ''s3://bucket/x.slc'') =
      local_files remote_and_local (last_component ''s3://bucket/x.slc'')"
    by (simp add: remote_and_local_def local_only_def)
  have size: "raster_b \<noteq> [] \<and> length raster_b = 8 * (1 * 1)"
    by (simp add: raster_b_def)
  from read_slc_local_file_only
    [where s = remote_only and seg = "''s3://bucket/x.slc''" and rows = 1 and cols = 1
       and bs = raster_b and s' = remote_only] absent
  have a: "read_slc remote_only ''s3://bucket/x.slc'' 1 1 = Inl FileNotFoundError"
    by blast
  from read_slc_local_file_only
    [where s = remote_and_local and seg = "''s3://bucket/x.slc''" and rows = 1 and cols = 1
       and bs = raster_b and s' = local_only] present size same
  obtain grid where g: "read_slc remote_and_local ''s3://bucket/x.slc'' 1 1 = Inr grid"
    and rows: "length grid = 1" and cols: "\<forall>row\<in>set grid. length row = 1"
    and bytes: "concat (concat grid) = raster_b"
    and c: "read_slc local_only ''s3://bucket/x.slc'' 1 1 =
      read_slc remote_and_local ''s3://bucket/x.slc'' 1 1"
    by auto
  from rows obtain row where row: "grid = [row]"
    by (cases grid) auto
  with cols have "length row = 1" by simp
  then obtain x where "row = [x]"
    by (cases row) auto
  with row bytes have "grid = [[raster_b]]" by simp
  with a g c show ?thesis by simp
qed

end
